theory Spec2Isabelle
  imports Complex_Main
begin

section \<open>Battery Cell Analyzer: parameter derivation and summary metrics\<close>

text \<open>
  The development embeds the computational core of \<^verbatim>\<open>app.py\<close>: the function
  \<^verbatim>\<open>calculate_cell_parameters\<close>, the loop of \<^verbatim>\<open>main\<close> that calls it for every
  configured cell, the four summary metrics that \<^verbatim>\<open>main\<close> computes from the results,
  and the progress fraction of \<^verbatim>\<open>display_cell_result\<close>.

  Numbers: the program computes with Python floats, which are IEEE 754 doubles. The
  capacity of a cell and the two sums of the summary depend on the rounding of every
  operation, and they can overflow: they are computed with the arithmetic of doubles,
  defined below. The other numbers are short decimals in every run (the constants of
  the cell types, the voltage range percentage, the temperature rounded to one place):
  they are kept as the real number that the decimal denotes.
\<close>

subsection \<open>Python's \<^verbatim>\<open>round(x, ndigits)\<close>\<close>

text \<open>
  \<^verbatim>\<open>round\<close> with a number of digits rounds to the nearest multiple of
  \<open>10 ^ (- ndigits)\<close>; a value exactly half way between two multiples goes to the
  one whose last digit is even.
\<close>

definition round_half_even :: "real \<Rightarrow> int" where
  "round_half_even x =
     (let f = \<lfloor>x\<rfloor>; d = x - of_int f in
      if d < 1 / 2 then f
      else if 1 / 2 < d then f + 1
      else if even f then f else f + 1)"

definition py_round :: "real \<Rightarrow> nat \<Rightarrow> real" where
  "py_round x ndigits = of_int (round_half_even (x * 10 ^ ndigits)) / 10 ^ ndigits"

subsection \<open>Python's \<^verbatim>\<open>str.upper\<close>\<close>

text \<open>
  A string is a list of characters. \<^verbatim>\<open>upper\<close> maps the letters \<^verbatim>\<open>a\<close> to \<^verbatim>\<open>z\<close>
  (codes 97 to 122) to \<^verbatim>\<open>A\<close> to \<^verbatim>\<open>Z\<close> and is the identity on every other ASCII
  character. Characters beyond ASCII are left unchanged by the model; Python may change
  them, but no character beyond ASCII has an upper-case form built from the letters
  \<^verbatim>\<open>L\<close>, \<^verbatim>\<open>F\<close>, \<^verbatim>\<open>P\<close> in that order, so the comparison with \<^verbatim>\<open>"LFP"\<close> is the same.
\<close>

definition upper_char :: "char \<Rightarrow> char" where
  "upper_char c =
     (let n = (of_char c :: nat) in
      if 97 \<le> n \<and> n \<le> 122 then char_of (n - 32) else c)"

definition upper :: "string \<Rightarrow> string" where
  "upper s = map upper_char s"

text \<open>
  Case-insensitive equality of two strings, as a specification: the strings are equal
  once every letter \<^verbatim>\<open>A\<close> to \<^verbatim>\<open>Z\<close> (codes 65 to 90) is replaced by its lower-case
  form. This definition is not taken from the program; the program's test
  \<^verbatim>\<open>cell_type.upper() == "LFP"\<close> is compared with it below.
\<close>

definition lower_char :: "char \<Rightarrow> char" where
  "lower_char c =
     (let n = (of_char c :: nat) in
      if 65 \<le> n \<and> n \<le> 90 then char_of (n + 32) else c)"

definition case_insensitive_equal :: "string \<Rightarrow> string \<Rightarrow> bool" where
  "case_insensitive_equal s t = (map lower_char s = map lower_char t)"

subsection \<open>Errors\<close>

text \<open>
  The exceptions that the operations used by the program can raise: \<^verbatim>\<open>/\<close> raises
  \<^verbatim>\<open>ZeroDivisionError\<close> on a zero divisor and \<^verbatim>\<open>max\<close> raises \<^verbatim>\<open>ValueError\<close> on
  an empty sequence. The program has no \<^verbatim>\<open>raise\<close> and no \<^verbatim>\<open>try\<close> of its own, so an
  exception of an operation ends the computation with that exception.

  \<open>EmptyResultSet\<close> is not an exception of the program: it is the error kind that the
  specification names for an empty list of results. It is part of the type so that
  the error of the program can be compared with it; no operation below returns it.
\<close>

datatype py_error = ZeroDivisionError | ValueError | EmptyResultSet

definition truediv :: "real \<Rightarrow> real \<Rightarrow> py_error + real" where
  "truediv a b = (if b = 0 then Inl ZeroDivisionError else Inr (a / b))"

text \<open>\<^verbatim>\<open>max\<close> over a sequence keeps the first item and replaces it by a later one
  only when that one is greater.\<close>

fun py_max :: "real list \<Rightarrow> py_error + real" where
  "py_max [] = Inl ValueError"
| "py_max (x # xs) = Inr (foldl (\<lambda>m y. if y > m then y else m) x xs)"

subsection \<open>Python floats\<close>

text \<open>
  A Python float is an IEEE 754 double: a finite number \<open>m * 2 ^ q\<close> with \<open>\<bar>m\<bar> < 2 ^ 53\<close>
  and \<open>- 1074 \<le> q \<le> 971\<close>, an infinity, or a NaN. In the type of floats below the value
  \<open>Finite r\<close> stands for the double nearest to the real number \<open>r\<close>, so that a decimal
  literal of the program is written as it is in the source. The sign of a zero is not
  modelled.
\<close>

datatype pyfloat = Finite real | PosInf | NegInf | NaN

text \<open>
  The binary exponent of a number: the \<open>e\<close> with \<open>2 ^ e \<le> \<bar>x\<bar> < 2 ^ (e + 1)\<close>, kept within
  the range of the doubles, from \<open>- 1022\<close> (below it the doubles are subnormal and
  share the exponent \<open>- 1022\<close>) to \<open>1024\<close> (from there on every number overflows).
\<close>

fun exp_up :: "nat \<Rightarrow> real \<Rightarrow> int" where
  "exp_up 0 x = 0"
| "exp_up (Suc k) x = (if x < 2 then 0 else 1 + exp_up k (x / 2))"

fun exp_down :: "nat \<Rightarrow> real \<Rightarrow> int" where
  "exp_down 0 x = 0"
| "exp_down (Suc k) x = (if 1 \<le> x then 0 else exp_down k (x * 2) - 1)"

definition binary_exponent :: "real \<Rightarrow> int" where
  "binary_exponent x = (if 1 \<le> \<bar>x\<bar> then exp_up 1024 \<bar>x\<bar> else exp_down 1022 \<bar>x\<bar>)"

text \<open>
  Rounding a real number to the nearest double, a tie going to the even significand:
  the number is rounded to a multiple of \<open>2 ^ (e - 52)\<close>, and a result of magnitude
  \<open>2 ^ 1024\<close> is an infinity.
\<close>

definition nearest_double :: "real \<Rightarrow> pyfloat" where
  "nearest_double x =
     (let q = binary_exponent x - 52;
          y = of_int (round_half_even (x / 2 powi q)) * 2 powi q
      in if 2 ^ 1024 \<le> y then PosInf
         else if y \<le> - (2 ^ 1024) then NegInf
         else Finite y)"

definition double_of :: "pyfloat \<Rightarrow> pyfloat" where
  "double_of a = (case a of Finite r \<Rightarrow> nearest_double r | _ \<Rightarrow> a)"

text \<open>The product and the sum of two floats, as IEEE 754 defines them.\<close>

definition float_mul :: "pyfloat \<Rightarrow> pyfloat \<Rightarrow> pyfloat" where
  "float_mul a b =
     (case (double_of a, double_of b) of
        (NaN, _) \<Rightarrow> NaN
      | (_, NaN) \<Rightarrow> NaN
      | (Finite x, Finite y) \<Rightarrow> nearest_double (x * y)
      | (Finite x, PosInf) \<Rightarrow> (if x = 0 then NaN else if 0 < x then PosInf else NegInf)
      | (Finite x, NegInf) \<Rightarrow> (if x = 0 then NaN else if 0 < x then NegInf else PosInf)
      | (PosInf, Finite y) \<Rightarrow> (if y = 0 then NaN else if 0 < y then PosInf else NegInf)
      | (NegInf, Finite y) \<Rightarrow> (if y = 0 then NaN else if 0 < y then NegInf else PosInf)
      | (PosInf, PosInf) \<Rightarrow> PosInf
      | (PosInf, NegInf) \<Rightarrow> NegInf
      | (NegInf, PosInf) \<Rightarrow> NegInf
      | (NegInf, NegInf) \<Rightarrow> PosInf)"

definition float_add :: "pyfloat \<Rightarrow> pyfloat \<Rightarrow> pyfloat" where
  "float_add a b =
     (case (double_of a, double_of b) of
        (NaN, _) \<Rightarrow> NaN
      | (_, NaN) \<Rightarrow> NaN
      | (Finite x, Finite y) \<Rightarrow> nearest_double (x + y)
      | (Finite x, PosInf) \<Rightarrow> PosInf
      | (Finite x, NegInf) \<Rightarrow> NegInf
      | (PosInf, Finite y) \<Rightarrow> PosInf
      | (NegInf, Finite y) \<Rightarrow> NegInf
      | (PosInf, PosInf) \<Rightarrow> PosInf
      | (PosInf, NegInf) \<Rightarrow> NaN
      | (NegInf, PosInf) \<Rightarrow> NaN
      | (NegInf, NegInf) \<Rightarrow> NegInf)"

text \<open>
  The quotient of two floats, as IEEE 754 defines it for a divisor that is not zero.
  Python's \<^verbatim>\<open>/\<close> raises \<^verbatim>\<open>ZeroDivisionError\<close> on a zero divisor before it divides;
  an integer divisor, such as a length, is converted to a float first.
\<close>

definition float_div :: "pyfloat \<Rightarrow> pyfloat \<Rightarrow> pyfloat" where
  "float_div a b =
     (case (double_of a, double_of b) of
        (NaN, _) \<Rightarrow> NaN
      | (_, NaN) \<Rightarrow> NaN
      | (Finite x, Finite y) \<Rightarrow> nearest_double (x / y)
      | (Finite x, PosInf) \<Rightarrow> Finite 0
      | (Finite x, NegInf) \<Rightarrow> Finite 0
      | (PosInf, Finite y) \<Rightarrow> (if 0 \<le> y then PosInf else NegInf)
      | (NegInf, Finite y) \<Rightarrow> (if 0 \<le> y then NegInf else PosInf)
      | (PosInf, PosInf) \<Rightarrow> NaN
      | (PosInf, NegInf) \<Rightarrow> NaN
      | (NegInf, PosInf) \<Rightarrow> NaN
      | (NegInf, NegInf) \<Rightarrow> NaN)"

definition float_truediv :: "pyfloat \<Rightarrow> pyfloat \<Rightarrow> py_error + pyfloat" where
  "float_truediv a b =
     (if double_of b = Finite 0 then Inl ZeroDivisionError else Inr (float_div a b))"

text \<open>The comparison \<^verbatim>\<open><=\<close> of two floats; every comparison with a NaN is false.\<close>

definition float_le :: "pyfloat \<Rightarrow> pyfloat \<Rightarrow> bool" where
  "float_le a b =
     (case (double_of a, double_of b) of
        (NaN, _) \<Rightarrow> False
      | (_, NaN) \<Rightarrow> False
      | (Finite x, Finite y) \<Rightarrow> x \<le> y
      | (NegInf, _) \<Rightarrow> True
      | (_, PosInf) \<Rightarrow> True
      | (PosInf, _) \<Rightarrow> False
      | (_, NegInf) \<Rightarrow> False)"

text \<open>
  \<^verbatim>\<open>round(x, ndigits)\<close> on a float: the exact value of the double is rounded to
  \<open>ndigits\<close> decimal places, a tie going to the even digit, and the result is the
  double nearest to that decimal; an infinity and a NaN are returned as they are.
\<close>

definition float_round :: "pyfloat \<Rightarrow> nat \<Rightarrow> pyfloat" where
  "float_round a ndigits =
     (case double_of a of Finite x \<Rightarrow> Finite (py_round x ndigits) | b \<Rightarrow> b)"

text \<open>
  \<^verbatim>\<open>sum\<close> starts from 0 and adds the items from left to right, each addition
  rounded, as CPython up to version 3.11 does; from version 3.12 on \<^verbatim>\<open>sum\<close> adds
  floats with a compensated algorithm, whose result can differ in the last place.
\<close>

definition float_sum :: "pyfloat list \<Rightarrow> pyfloat" where
  "float_sum xs = foldl float_add (Finite 0) xs"

text \<open>A float that is zero, negative, or the negative infinity.\<close>

definition nonpositive :: "pyfloat \<Rightarrow> bool" where
  "nonpositive a = (case a of Finite y \<Rightarrow> y \<le> 0 | NegInf \<Rightarrow> True | _ \<Rightarrow> False)"


subsection \<open>The random source\<close>

text \<open>
  \<^verbatim>\<open>random.uniform(a, b)\<close> is \<^verbatim>\<open>a + (b - a) * random()\<close>, where \<^verbatim>\<open>random()\<close>
  is the next sample of the generator, a number of the unit interval. The generator is
  an explicit state: the sequence of its samples and the number of samples already
  drawn.
\<close>

record rng =
  samples :: "nat \<Rightarrow> real"
  drawn :: nat

definition random_random :: "rng \<Rightarrow> real \<times> rng" where
  "random_random g = (samples g (drawn g), g\<lparr>drawn := Suc (drawn g)\<rparr>)"

definition random_uniform :: "real \<Rightarrow> real \<Rightarrow> rng \<Rightarrow> real \<times> rng" where
  "random_uniform a b g = (let (r, g') = random_random g in (a + (b - a) * r, g'))"

subsection \<open>\<^verbatim>\<open>calculate_cell_parameters\<close>\<close>

text \<open>The dictionary that the function returns has a fixed set of keys: a record.\<close>

record params =
  voltage :: real
  current :: real
  temperature :: real
  capacity :: pyfloat
  max_voltage :: real
  min_voltage :: real
  voltage_range_percent :: real

text \<open>
  The function in the order of the source: the constants of the cell type, the
  temperature, the capacity, the voltage range percentage. The capacity is the product
  of two doubles, the voltage and the current, rounded to two places. The division is
  the one operation of the body that can raise.
\<close>

definition calculate_cell_parameters ::
  "string \<Rightarrow> real \<Rightarrow> rng \<Rightarrow> py_error + (params \<times> rng)" where
  "calculate_cell_parameters cell_type cur g =
     (let (v, max_v, min_v) =
            (if upper cell_type = ''LFP'' then (3.2, 4.0, 2.8) else (3.6, 3.4, 3.2));
          (u, g') = random_uniform 25 40 g;
          temp = py_round u 1;
          cap = float_round (float_mul (Finite v) (Finite cur)) 2
      in case (if max_v > min_v
               then (case truediv (v - min_v) (max_v - min_v) of
                       Inl e \<Rightarrow> Inl e
                     | Inr q \<Rightarrow> Inr (py_round (q * 100) 1))
               else Inr 50.0) of
           Inl e \<Rightarrow> Inl e
         | Inr vrp \<Rightarrow>
             Inr (\<lparr>voltage = v, current = cur, temperature = temp, capacity = cap,
                   max_voltage = max_v, min_voltage = min_v,
                   voltage_range_percent = vrp\<rparr>, g'))"

subsection \<open>\<^verbatim>\<open>display_cell_result\<close>: the progress fraction\<close>

text \<open>\<^verbatim>\<open>progress_value = max(0.0, min(1.0, params['voltage_range_percent'] / 100))\<close>\<close>

definition progress_value :: "'a params_scheme \<Rightarrow> real" where
  "progress_value p = max 0.0 (min 1.0 (voltage_range_percent p / 100))"

subsection \<open>\<^verbatim>\<open>main\<close>: the results of all cells\<close>

text \<open>
  An entry of \<^verbatim>\<open>cells_data\<close> has the keys \<^verbatim>\<open>id\<close>, \<^verbatim>\<open>type\<close> and \<^verbatim>\<open>current\<close>. An
  entry of \<^verbatim>\<open>results\<close> has the keys \<^verbatim>\<open>id\<close> and \<^verbatim>\<open>type\<close> and, through
  \<^verbatim>\<open>**params\<close>, all the keys of the parameters.
\<close>

record cell_data =
  cell_id :: int
  cell_type :: string
  cell_current :: real

record result = params +
  result_id :: int
  result_type :: string

definition make_result :: "cell_data \<Rightarrow> params \<Rightarrow> result" where
  "make_result cell p =
     \<lparr>voltage = voltage p, current = current p, temperature = temperature p,
      capacity = capacity p, max_voltage = max_voltage p, min_voltage = min_voltage p,
      voltage_range_percent = voltage_range_percent p,
      result_id = cell_id cell, result_type = cell_type cell\<rparr>"

text \<open>
  The loop \<^verbatim>\<open>for cell in cells_data\<close>, with the list \<^verbatim>\<open>results\<close> built so far as
  an accumulator; \<^verbatim>\<open>main\<close> starts it on the empty list.
\<close>

fun calculate_all ::
  "cell_data list \<Rightarrow> rng \<Rightarrow> result list \<Rightarrow> py_error + (result list \<times> rng)" where
  "calculate_all [] g results = Inr (results, g)"
| "calculate_all (cell # cells) g results =
     (case calculate_cell_parameters (cell_type cell) (cell_current cell) g of
        Inl e \<Rightarrow> Inl e
      | Inr (p, g') \<Rightarrow> calculate_all cells g' (results @ [make_result cell p]))"

definition calculate_results ::
  "cell_data list \<Rightarrow> rng \<Rightarrow> py_error + (result list \<times> rng)" where
  "calculate_results cells_data g = calculate_all cells_data g []"

subsection \<open>\<^verbatim>\<open>main\<close>: the summary metrics\<close>

record summary =
  total_capacity :: pyfloat
  avg_temperature :: pyfloat
  peak_voltage :: real
  cell_count :: nat

text \<open>
  The four assignments after the header \<^verbatim>\<open>Analysis Summary\<close>, in the order of the
  source: the sum of the capacities, the rounded mean of the temperatures, the maximum
  of the voltages, the length. The sums and the division are those of doubles.
\<close>

definition summary_metrics :: "result list \<Rightarrow> py_error + summary" where
  "summary_metrics results =
     (let total = float_sum (map capacity results) in
      case float_truediv (float_sum (map (\<lambda>r. Finite (temperature r)) results))
             (Finite (of_nat (length results))) of
        Inl e \<Rightarrow> Inl e
      | Inr mean \<Rightarrow>
          (let avg = float_round mean 1 in
           case py_max (map voltage results) of
             Inl e \<Rightarrow> Inl e
           | Inr peak \<Rightarrow>
               Inr \<lparr>total_capacity = total, avg_temperature = avg,
                    peak_voltage = peak, cell_count = length results\<rparr>))"

text \<open>A generator for the examples: its samples are \<open>1/2\<close>, \<open>1/3\<close>, \<open>1/4\<close>, ...\<close>

definition example_rng :: rng where
  "example_rng = \<lparr>samples = (\<lambda>n. 1 / (real n + 2)), drawn = 0\<rparr>"


section \<open>Properties\<close>

subsection \<open>Rounding\<close>

lemma round_half_even_bounds: "\<lfloor>x\<rfloor> \<le> round_half_even x \<and> round_half_even x \<le> \<lceil>x\<rceil>"
proof -
  have "x - of_int \<lfloor>x\<rfloor> < 1 / 2 \<or> \<lfloor>x\<rfloor> + 1 \<le> \<lceil>x\<rceil>"
    by (metis ceiling_altdef diff_self half_gt_zero_iff zero_less_one order_refl)
  then show ?thesis
    by (auto simp: round_half_even_def Let_def)
qed

lemma round_half_even_of_int [simp]: "round_half_even (of_int k) = k"
  by (simp add: round_half_even_def)

lemma round_half_even_ge:
  assumes "of_int m \<le> x"
  shows "m \<le> round_half_even x"
proof -
  have "m \<le> \<lfloor>x\<rfloor>" using assms by (simp add: le_floor_iff)
  then show ?thesis using round_half_even_bounds[of x] by linarith
qed

lemma round_half_even_le:
  assumes "x \<le> of_int n"
  shows "round_half_even x \<le> n"
proof -
  have "\<lceil>x\<rceil> \<le> n" using assms by (simp add: ceiling_le_iff)
  then show ?thesis using round_half_even_bounds[of x] by linarith
qed

lemma py_round_ge:
  assumes "of_int m / 10 ^ d \<le> x"
  shows "of_int m / 10 ^ d \<le> py_round x d"
proof -
  have "of_int m \<le> x * 10 ^ d"
    using assms by (simp add: field_simps)
  then have "m \<le> round_half_even (x * 10 ^ d)"
    by (rule round_half_even_ge)
  then show ?thesis
    by (simp add: py_round_def divide_le_cancel)
qed

lemma py_round_le:
  assumes "x \<le> of_int n / 10 ^ d"
  shows "py_round x d \<le> of_int n / 10 ^ d"
proof -
  have "x * 10 ^ d \<le> of_int n"
    using assms by (simp add: field_simps)
  then have "round_half_even (x * 10 ^ d) \<le> n"
    by (rule round_half_even_le)
  then show ?thesis
    by (simp add: py_round_def divide_le_cancel)
qed

lemma py_round_decimal: "py_round x d * 10 ^ d \<in> \<int>"
  by (simp add: py_round_def)

lemma py_round_0: "py_round 0 d = 0"
  by (simp add: py_round_def round_half_even_def)

lemma py_round_nonpos: "x \<le> 0 \<Longrightarrow> py_round x d \<le> 0"
  using py_round_le[of x 0 d] by simp

lemma py_round_nonneg: "0 \<le> x \<Longrightarrow> 0 \<le> py_round x d"
  using py_round_ge[of 0 d x] by simp

lemma py_round_25_40: "25 \<le> x \<Longrightarrow> x \<le> 40 \<Longrightarrow> 25 \<le> py_round x 1 \<and> py_round x 1 \<le> 40"
  using py_round_ge[of 250 1 x] py_round_le[of x 400 1] by simp

subsection \<open>Evaluating the rounding to a double\<close>

lemma exp_up_eq:
  "2 ^ n \<le> x \<Longrightarrow> x < 2 ^ Suc n \<Longrightarrow> n \<le> k \<Longrightarrow> exp_up k x = int n"
proof (induction k arbitrary: x n)
  case 0
  then show ?case by simp
next
  case (Suc k)
  show ?case
  proof (cases "x < 2")
    case True
    have "n = 0"
    proof (rule ccontr)
      assume "n \<noteq> 0"
      then have "(2::real) ^ 1 \<le> 2 ^ n" by (intro power_increasing) simp_all
      with Suc.prems(1) True show False by simp
    qed
    with True show ?thesis by simp
  next
    case False
    have "n \<noteq> 0" using False Suc.prems(2) by (cases n) auto
    then obtain m where n: "n = Suc m" by (cases n) auto
    have "2 ^ m \<le> x / 2" "x / 2 < 2 ^ Suc m" "m \<le> k"
      using Suc.prems n by simp_all
    then have "exp_up k (x / 2) = int m" by (rule Suc.IH)
    with False n show ?thesis by simp
  qed
qed

lemma exp_up_full: "2 ^ k \<le> x \<Longrightarrow> exp_up k x = int k"
proof (induction k arbitrary: x)
  case 0
  then show ?case by simp
next
  case (Suc k)
  have "(1::real) \<le> 2 ^ k" by simp
  then have "\<not> x < 2" using Suc.prems unfolding power_Suc by linarith
  moreover have "2 ^ k \<le> x / 2" using Suc.prems by simp
  then have "exp_up k (x / 2) = int k" by (rule Suc.IH)
  ultimately show ?case by simp
qed

lemma exp_down_eq:
  "1 / 2 ^ n \<le> x \<Longrightarrow> x < 2 / 2 ^ n \<Longrightarrow> 0 < n \<Longrightarrow> n \<le> k \<Longrightarrow> exp_down k x = - int n"
proof (induction k arbitrary: x n)
  case 0
  then show ?case by simp
next
  case (Suc k)
  obtain m where n: "n = Suc m" using Suc.prems(3) by (cases n) auto
  have "(1::real) \<le> 2 ^ m" by simp
  then have "(1::real) / 2 ^ m \<le> 1" by (simp add: divide_le_eq_1)
  moreover have "x < 1 / 2 ^ m" using Suc.prems(2) n by simp
  ultimately have "x < 1" by linarith
  show ?case
  proof (cases m)
    case 0
    then have "1 \<le> x * 2" using Suc.prems(1) n by simp
    then have "exp_down k (x * 2) = 0" by (cases k) simp_all
    then show ?thesis using \<open>x < 1\<close> n 0 by simp
  next
    case (Suc j)
    have "1 / 2 ^ m \<le> x * 2" "x * 2 < 2 / 2 ^ m" "0 < m" "m \<le> k"
      using Suc.prems n Suc by (simp_all add: field_simps)
    then have "exp_down k (x * 2) = - int m" by (rule Suc.IH)
    then show ?thesis using \<open>x < 1\<close> n by simp
  qed
qed

lemma exp_down_full: "x < 1 / 2 ^ k \<Longrightarrow> exp_down k x = - int k"
proof (induction k arbitrary: x)
  case 0
  then show ?case by simp
next
  case (Suc k)
  have "(1::real) \<le> 2 * 2 ^ k" using one_le_power [of "2::real" k] by linarith
  then have "(1::real) / (2 * 2 ^ k) \<le> 1" by (simp only: divide_le_eq_1) simp
  then have "\<not> 1 \<le> x" using Suc.prems unfolding power_Suc by linarith
  moreover have "x * 2 < 1 / 2 ^ k" using Suc.prems by (simp add: field_simps)
  then have "exp_down k (x * 2) = - int k" by (rule Suc.IH)
  ultimately show ?case by simp
qed

text \<open>The exponent of a number of magnitude at least 1, and of one below 1.\<close>

lemma binary_exponent_ge1:
  assumes "2 ^ n \<le> \<bar>x\<bar>" "\<bar>x\<bar> < 2 ^ Suc n" "n \<le> 1024"
  shows "binary_exponent x = int n"
proof -
  have "(1::real) \<le> 2 ^ n" by simp
  then have "1 \<le> \<bar>x\<bar>" using assms(1) by linarith
  then show ?thesis
    using exp_up_eq [OF assms] by (simp add: binary_exponent_def)
qed

lemma binary_exponent_lt1:
  assumes "1 / 2 ^ n \<le> \<bar>x\<bar>" "\<bar>x\<bar> < 2 / 2 ^ n" "0 < n" "n \<le> 1022"
  shows "binary_exponent x = - int n"
proof -
  obtain m where n: "n = Suc m" using assms(3) by (cases n) auto
  have "(1::real) \<le> 2 ^ m" by simp
  then have "(1::real) / 2 ^ m \<le> 1" by (simp add: divide_le_eq_1)
  moreover have "\<bar>x\<bar> < 1 / 2 ^ m" using assms(2) n by simp
  ultimately have "\<not> 1 \<le> \<bar>x\<bar>" by linarith
  then show ?thesis
    using exp_down_eq [OF assms] by (simp add: binary_exponent_def)
qed

lemma binary_exponent_0: "binary_exponent 0 = - 1022"
  using exp_down_full [of 0 1022] by (simp add: binary_exponent_def)

lemma binary_exponent_huge:
  assumes "2 ^ 1024 \<le> \<bar>x\<bar>"
  shows "binary_exponent x = 1024"
proof -
  have "(1::real) \<le> 2 ^ 1024" by (rule one_le_power) simp
  then have "1 \<le> \<bar>x\<bar>" using assms by linarith
  then show ?thesis
    using exp_up_full [OF assms] by (simp add: binary_exponent_def)
qed

text \<open>The double nearest to a number whose exponent is known.\<close>

lemma nearest_double_at:
  "binary_exponent x = e \<Longrightarrow>
   nearest_double x =
     (let y = real_of_int (round_half_even (x / 2 powi (e - 52))) * 2 powi (e - 52)
      in if 2 ^ 1024 \<le> y then PosInf
         else if y \<le> - (2 ^ 1024) then NegInf
         else Finite y)"
  by (simp add: nearest_double_def Let_def)

lemma nearest_double_0: "nearest_double 0 = Finite 0"
  by (simp add: nearest_double_at [OF binary_exponent_0] round_half_even_def Let_def)

lemma nearest_double_overflow:
  assumes "2 ^ 1024 \<le> x"
  shows "nearest_double x = PosInf"
proof -
  have pos: "(0::real) < 2 ^ 1024" by simp
  then have "2 ^ 1024 \<le> \<bar>x\<bar>" using assms by linarith
  then have e: "binary_exponent x = 1024" by (rule binary_exponent_huge)
  have "(2::real) ^ 1024 = 2 ^ 52 * 2 ^ 972"
    by (simp only: power_add [symmetric]) simp
  then have "of_int (2 ^ 52) \<le> x / 2 ^ 972"
    using assms by (simp add: field_simps)
  then have "2 ^ 52 \<le> round_half_even (x / 2 ^ 972)"
    by (rule round_half_even_ge)
  then have "(2::real) ^ 52 \<le> of_int (round_half_even (x / 2 ^ 972))"
    by (metis of_int_le_iff of_int_numeral of_int_power)
  then have "(2::real) ^ 52 * 2 ^ 972 \<le> of_int (round_half_even (x / 2 ^ 972)) * 2 ^ 972"
    by (intro mult_right_mono) simp_all
  then have "(2::real) ^ 1024 \<le> of_int (round_half_even (x / 2 ^ 972)) * 2 ^ 972"
    using \<open>(2::real) ^ 1024 = 2 ^ 52 * 2 ^ 972\<close> by simp
  then show ?thesis
    by (simp add: nearest_double_def Let_def e)
qed

text \<open>Rounding to a double keeps a number that is not positive from becoming positive.\<close>

lemma nearest_double_nonpositive:
  assumes "x \<le> 0"
  shows "nonpositive (nearest_double x)"
proof -
  define q where "q = binary_exponent x - 52"
  define y where "y = real_of_int (round_half_even (x / 2 powi q)) * 2 powi q"
  have "x / 2 powi q \<le> of_int 0"
    using assms by (simp add: divide_nonpos_pos)
  then have "round_half_even (x / 2 powi q) \<le> 0"
    by (rule round_half_even_le)
  then have y: "y \<le> 0"
    by (simp add: y_def mult_nonpos_nonneg)
  have "(0::real) < 2 ^ 1024" by simp
  then have big: "\<not> 2 ^ 1024 \<le> y" using y by linarith
  have "nearest_double x = (if y \<le> - (2 ^ 1024) then NegInf else Finite y)"
    using big by (simp add: nearest_double_def Let_def q_def y_def)
  then show ?thesis
    using y by (simp add: nonpositive_def)
qed

lemma exp_up_lower: "1 \<le> x \<Longrightarrow> 2 ^ nat (exp_up k x) \<le> x \<and> 0 \<le> exp_up k x"
proof (induction k arbitrary: x)
  case 0
  then show ?case by simp
next
  case (Suc k)
  show ?case
  proof (cases "x < 2")
    case True
    then show ?thesis using Suc.prems by simp
  next
    case False
    then have "1 \<le> x / 2" by simp
    then have ih: "2 ^ nat (exp_up k (x / 2)) \<le> x / 2" "0 \<le> exp_up k (x / 2)"
      using Suc.IH by blast+
    have "nat (1 + exp_up k (x / 2)) = Suc (nat (exp_up k (x / 2)))"
      using ih(2) by simp
    then show ?thesis using False ih by simp
  qed
qed

lemma nearest_double_nonzero:
  assumes "1 \<le> x"
  shows "nearest_double x \<noteq> Finite 0"
proof -
  define e where "e = binary_exponent x"
  define y where "y = real_of_int (round_half_even (x / 2 powi (e - 52))) * 2 powi (e - 52)"
  have e: "e = exp_up 1024 x"
    using assms by (simp add: e_def binary_exponent_def)
  have le: "2 ^ nat e \<le> x" and e0: "0 \<le> e"
    using exp_up_lower [OF assms, of 1024] e by simp_all
  have "(2::real) powi (e - 52) = 2 ^ nat e / 2 ^ 52"
    using e0 by (simp add: power_int_diff power_int_nonneg_exp)
  have "x / 2 powi (e - 52) = x * 2 ^ 52 / 2 ^ nat e"
    unfolding \<open>(2::real) powi (e - 52) = 2 ^ nat e / 2 ^ 52\<close> by simp
  moreover have "of_int 1 \<le> x * 2 ^ 52 / 2 ^ nat e"
  proof -
    have "(2::real) ^ nat e \<le> x * 2 ^ 52"
      using le assms by (smt (verit) mult_le_cancel_left1 one_le_power mult.commute)
    then show ?thesis by (simp add: field_simps)
  qed
  ultimately have "1 \<le> round_half_even (x / 2 powi (e - 52))"
    using round_half_even_ge by metis
  then have "0 < y"
    by (simp add: y_def)
  then show ?thesis
    using nearest_double_at [OF e_def [symmetric]] unfolding y_def [symmetric] Let_def
    by (auto split: if_splits)
qed

subsection \<open>The doubles of some decimals\<close>

lemma double_1: "nearest_double (16 / 5) = Finite (3602879701896397 / 1125899906842624)"
proof -
  have "binary_exponent (16 / 5) = int 1"
    by (rule binary_exponent_ge1) simp_all
  then show ?thesis
    by (simp add: nearest_double_at round_half_even_def Let_def)
qed

lemma double_2: "nearest_double 2 = Finite 2"
proof -
  have "binary_exponent 2 = int 1"
    by (rule binary_exponent_ge1) simp_all
  then show ?thesis
    by (simp add: nearest_double_at round_half_even_def Let_def)
qed

lemma double_3: "nearest_double (3602879701896397 / 562949953421312) = Finite (3602879701896397 / 562949953421312)"
proof -
  have "binary_exponent (3602879701896397 / 562949953421312) = int 2"
    by (rule binary_exponent_ge1) simp_all
  then show ?thesis
    by (simp add: nearest_double_at round_half_even_def Let_def)
qed

lemma double_4: "nearest_double (1 / 128) = Finite (1 / 128)"
proof -
  have "binary_exponent (1 / 128) = - int 7"
    by (rule binary_exponent_lt1) simp_all
  then show ?thesis
    by (simp add: nearest_double_at round_half_even_def Let_def)
qed

lemma double_5: "nearest_double (3602879701896397 / 144115188075855872) = Finite (3602879701896397 / 144115188075855872)"
proof -
  have "binary_exponent (3602879701896397 / 144115188075855872) = - int 6"
    by (rule binary_exponent_lt1) simp_all
  then show ?thesis
    by (simp add: nearest_double_at round_half_even_def Let_def)
qed

lemma double_6: "nearest_double (18 / 5) = Finite (8106479329266893 / 2251799813685248)"
proof -
  have "binary_exponent (18 / 5) = int 1"
    by (rule binary_exponent_ge1) simp_all
  then show ?thesis
    by (simp add: nearest_double_at round_half_even_def Let_def)
qed

lemma double_7: "nearest_double (7 / 16) = Finite (7 / 16)"
proof -
  have "binary_exponent (7 / 16) = - int 2"
    by (rule binary_exponent_lt1) simp_all
  then show ?thesis
    by (simp add: nearest_double_at round_half_even_def Let_def)
qed

lemma double_8: "nearest_double (56745355304868251 / 36028797018963968) = Finite (7093169413108531 / 4503599627370496)"
proof -
  have "binary_exponent (56745355304868251 / 36028797018963968) = int 0"
    by (rule binary_exponent_ge1) simp_all
  then show ?thesis
    by (simp add: nearest_double_at round_half_even_def Let_def)
qed

lemma double_9: "nearest_double (7093169413108531 / 4503599627370496) = Finite (7093169413108531 / 4503599627370496)"
proof -
  have "binary_exponent (7093169413108531 / 4503599627370496) = int 0"
    by (rule binary_exponent_ge1) simp_all
  then show ?thesis
    by (simp add: nearest_double_at round_half_even_def Let_def)
qed

lemma double_10: "nearest_double (- 1) = Finite (- 1)"
proof -
  have "binary_exponent (- 1) = int 0"
    by (rule binary_exponent_ge1) simp_all
  then show ?thesis
    by (simp add: nearest_double_at round_half_even_def Let_def)
qed

lemma double_11: "nearest_double (- (8106479329266893 / 2251799813685248)) = Finite (- (8106479329266893 / 2251799813685248))"
proof -
  have "binary_exponent (- (8106479329266893 / 2251799813685248)) = int 1"
    by (rule binary_exponent_ge1) simp_all
  then show ?thesis
    by (simp add: nearest_double_at round_half_even_def Let_def)
qed

lemma double_12: "nearest_double (- (1 / 128)) = Finite (- (1 / 128))"
proof -
  have "binary_exponent (- (1 / 128)) = - int 7"
    by (rule binary_exponent_lt1) simp_all
  then show ?thesis
    by (simp add: nearest_double_at round_half_even_def Let_def)
qed

lemma double_13: "nearest_double (- (3602879701896397 / 144115188075855872)) = Finite (- (3602879701896397 / 144115188075855872))"
proof -
  have "binary_exponent (- (3602879701896397 / 144115188075855872)) = - int 6"
    by (rule binary_exponent_lt1) simp_all
  then show ?thesis
    by (simp add: nearest_double_at round_half_even_def Let_def)
qed

lemma double_14: "nearest_double (32 / 5) = Finite (3602879701896397 / 562949953421312)"
proof -
  have "binary_exponent (32 / 5) = int 2"
    by (rule binary_exponent_ge1) simp_all
  then show ?thesis
    by (simp add: nearest_double_at round_half_even_def Let_def)
qed

lemma double_15: "nearest_double (22517998136852481 / 2251799813685248) = Finite 10"
proof -
  have "binary_exponent (22517998136852481 / 2251799813685248) = int 3"
    by (rule binary_exponent_ge1) simp_all
  then show ?thesis
    by (simp add: nearest_double_at round_half_even_def Let_def)
qed

lemma double_16: "nearest_double 30 = Finite 30"
proof -
  have "binary_exponent 30 = int 4"
    by (rule binary_exponent_ge1) simp_all
  then show ?thesis
    by (simp add: nearest_double_at round_half_even_def Let_def)
qed

lemma double_17: "nearest_double 28 = Finite 28"
proof -
  have "binary_exponent 28 = int 4"
    by (rule binary_exponent_ge1) simp_all
  then show ?thesis
    by (simp add: nearest_double_at round_half_even_def Let_def)
qed

lemma double_18: "nearest_double 58 = Finite 58"
proof -
  have "binary_exponent 58 = int 5"
    by (rule binary_exponent_ge1) simp_all
  then show ?thesis
    by (simp add: nearest_double_at round_half_even_def Let_def)
qed

lemma double_19: "nearest_double 29 = Finite 29"
proof -
  have "binary_exponent 29 = int 4"
    by (rule binary_exponent_ge1) simp_all
  then show ?thesis
    by (simp add: nearest_double_at round_half_even_def Let_def)
qed

lemma double_20: "nearest_double (3602879701896397 / 281474976710656) = Finite (3602879701896397 / 281474976710656)"
proof -
  have "binary_exponent (3602879701896397 / 281474976710656) = int 3"
    by (rule binary_exponent_ge1) simp_all
  then show ?thesis
    by (simp add: nearest_double_at round_half_even_def Let_def)
qed

lemma double_21: "nearest_double (10808639105689191 / 562949953421312) = Finite (1351079888211149 / 70368744177664)"
proof -
  have "binary_exponent (10808639105689191 / 562949953421312) = int 4"
    by (rule binary_exponent_ge1) simp_all
  then show ?thesis
    by (simp add: nearest_double_at round_half_even_def Let_def)
qed

lemma double_22: "nearest_double (301 / 10) = Finite (4236198399495373 / 140737488355328)"
proof -
  have "binary_exponent (301 / 10) = int 4"
    by (rule binary_exponent_ge1) simp_all
  then show ?thesis
    by (simp add: nearest_double_at round_half_even_def Let_def)
qed

lemma double_23: "nearest_double (8458323050155213 / 140737488355328) = Finite (8458323050155213 / 140737488355328)"
proof -
  have "binary_exponent (8458323050155213 / 140737488355328) = int 5"
    by (rule binary_exponent_ge1) simp_all
  then show ?thesis
    by (simp add: nearest_double_at round_half_even_def Let_def)
qed

lemma double_24: "nearest_double (12680447700815053 / 140737488355328) = Finite (3170111925203763 / 35184372088832)"
proof -
  have "binary_exponent (12680447700815053 / 140737488355328) = int 6"
    by (rule binary_exponent_ge1) simp_all
  then show ?thesis
    by (simp add: nearest_double_at round_half_even_def Let_def)
qed

lemma double_25: "nearest_double 3 = Finite 3"
proof -
  have "binary_exponent 3 = int 1"
    by (rule binary_exponent_ge1) simp_all
  then show ?thesis
    by (simp add: nearest_double_at round_half_even_def Let_def)
qed

lemma double_26: "nearest_double (3170111925203763 / 35184372088832) = Finite (3170111925203763 / 35184372088832)"
proof -
  have "binary_exponent (3170111925203763 / 35184372088832) = int 6"
    by (rule binary_exponent_ge1) simp_all
  then show ?thesis
    by (simp add: nearest_double_at round_half_even_def Let_def)
qed

lemma double_27: "nearest_double (1056703975067921 / 35184372088832) = Finite (1056703975067921 / 35184372088832)"
proof -
  have "binary_exponent (1056703975067921 / 35184372088832) = int 4"
    by (rule binary_exponent_ge1) simp_all
  then show ?thesis
    by (simp add: nearest_double_at round_half_even_def Let_def)
qed

lemma double_28: "nearest_double (8458323050155213 / 281474976710656) = Finite (8458323050155213 / 281474976710656)"
proof -
  have "binary_exponent (8458323050155213 / 281474976710656) = int 4"
    by (rule binary_exponent_ge1) simp_all
  then show ?thesis
    by (simp add: nearest_double_at round_half_even_def Let_def)
qed

lemma double_29: "nearest_double (19200000000000003 / 1000000000000000) = Finite (1351079888211149 / 70368744177664)"
proof -
  have "binary_exponent (19200000000000003 / 1000000000000000) = int 4"
    by (rule binary_exponent_ge1) simp_all
  then show ?thesis
    by (simp add: nearest_double_at round_half_even_def Let_def)
qed

lemma double_30: "nearest_double (64 / 5) = Finite (3602879701896397 / 281474976710656)"
proof -
  have "binary_exponent (64 / 5) = int 3"
    by (rule binary_exponent_ge1) simp_all
  then show ?thesis
    by (simp add: nearest_double_at round_half_even_def Let_def)
qed

lemma double_31: "nearest_double (96 / 5) = Finite (5404319552844595 / 281474976710656)"
proof -
  have "binary_exponent (96 / 5) = int 4"
    by (rule binary_exponent_ge1) simp_all
  then show ?thesis
    by (simp add: nearest_double_at round_half_even_def Let_def)
qed

lemmas example_doubles = nearest_double_0 double_1 double_2 double_3 double_4 double_5 double_6 double_7 double_8 double_9 double_10 double_11 double_12 double_13 double_14 double_15 double_16 double_17 double_18 double_19 double_20 double_21 double_22 double_23 double_24 double_25 double_26 double_27 double_28 double_29 double_30 double_31

subsection \<open>Signs\<close>

lemma double_of_nonpositive:
  assumes "nonpositive a"
  shows "nonpositive (double_of a)"
proof (cases a)
  case (Finite y)
  then have "y \<le> 0"
    using assms by (simp add: nonpositive_def)
  then have "nonpositive (nearest_double y)"
    by (rule nearest_double_nonpositive)
  then show ?thesis
    by (simp add: double_of_def Finite)
next
  case PosInf
  then show ?thesis using assms by (simp add: nonpositive_def)
next
  case NegInf
  then show ?thesis by (simp add: double_of_def nonpositive_def)
next
  case NaN
  then show ?thesis using assms by (simp add: nonpositive_def)
qed

lemma float_mul_nonpositive:
  assumes "double_of a = Finite v" "0 < v" "nonpositive b"
  shows "nonpositive (float_mul a b)"
proof (cases "double_of b")
  case (Finite y)
  then have "y \<le> 0"
    using double_of_nonpositive [OF assms(3)] by (simp add: nonpositive_def)
  then have "v * y \<le> 0"
    using assms(2) by (simp add: mult_nonneg_nonpos)
  then have "nonpositive (nearest_double (v * y))"
    by (rule nearest_double_nonpositive)
  then show ?thesis
    by (simp add: float_mul_def assms(1) Finite)
next
  case PosInf
  then show ?thesis
    using double_of_nonpositive [OF assms(3)] by (simp add: nonpositive_def)
next
  case NegInf
  then show ?thesis
    using assms(2) by (simp add: float_mul_def assms(1) nonpositive_def)
next
  case NaN
  then show ?thesis
    using double_of_nonpositive [OF assms(3)] by (simp add: nonpositive_def)
qed

lemma float_round_nonpositive:
  assumes "nonpositive a"
  shows "nonpositive (float_round a n)"
proof (cases "double_of a")
  case (Finite y)
  then have "y \<le> 0"
    using double_of_nonpositive [OF assms] by (simp add: nonpositive_def)
  then have "py_round y n \<le> 0"
    by (rule py_round_nonpos)
  then show ?thesis
    by (simp add: float_round_def Finite nonpositive_def)
next
  case PosInf
  then show ?thesis
    using double_of_nonpositive [OF assms] by (simp add: nonpositive_def)
next
  case NegInf
  then show ?thesis
    by (simp add: float_round_def nonpositive_def)
next
  case NaN
  then show ?thesis
    using double_of_nonpositive [OF assms] by (simp add: nonpositive_def)
qed

lemma float_le_zero:
  assumes "nonpositive a"
  shows "float_le a (Finite 0)"
proof -
  have z: "double_of (Finite 0) = Finite 0"
    by (simp add: double_of_def nearest_double_0)
  show ?thesis
    using double_of_nonpositive [OF assms]
    by (cases "double_of a") (simp_all add: float_le_def z nonpositive_def)
qed

lemma float_mul_zero:
  assumes "double_of a = Finite v"
  shows "float_round (float_mul a (Finite 0)) n = Finite 0"
  by (simp add: float_round_def float_mul_def double_of_def [of "Finite _"] assms
      nearest_double_0 py_round_0)

subsection \<open>Overflow\<close>

lemma double_2_1023: "nearest_double (2 ^ 1023) = Finite (2 ^ 1023)"
proof -
  have "binary_exponent (2 ^ 1023) = int 1023"
    by (rule binary_exponent_ge1) simp_all
  then show ?thesis
    by (simp add: nearest_double_at round_half_even_def Let_def)
qed

lemma overflow_example:
  "float_round (float_mul (Finite 3.6) (Finite (2 ^ 1023))) 2 = PosInf"
proof -
  have "(2::real) ^ 1024 \<le> 8106479329266893 / 2251799813685248 * 2 ^ 1023"
    by simp
  then have "nearest_double (8106479329266893 / 2251799813685248 * 2 ^ 1023) = PosInf"
    by (rule nearest_double_overflow)
  then have "float_mul (Finite 3.6) (Finite (2 ^ 1023)) = PosInf"
    using double_2_1023 by (simp add: float_mul_def double_of_def example_doubles)
  then show ?thesis
    by (simp add: float_round_def double_of_def)
qed

lemma real_nat_nonzero: "0 < n \<Longrightarrow> double_of (Finite (real n)) \<noteq> Finite 0"
  by (simp add: double_of_def nearest_double_nonzero)

subsection \<open>Upper case and case-insensitive equality\<close>

lemma of_char_upper_char:
  "(of_char (upper_char c) :: nat) =
     (if 97 \<le> (of_char c :: nat) \<and> (of_char c :: nat) \<le> 122 then of_char c - 32 else of_char c)"
proof (cases "97 \<le> (of_char c :: nat) \<and> (of_char c :: nat) \<le> 122")
  case True
  then have "(of_char c :: nat) - 32 < 256" by arith
  then have "((of_char c :: nat) - 32) mod 256 = of_char c - 32" by (rule mod_less)
  then show ?thesis using True by (simp add: upper_char_def)
next
  case False
  then show ?thesis by (auto simp: upper_char_def)
qed

lemma of_char_lower_char:
  "(of_char (lower_char c) :: nat) =
     (if 65 \<le> (of_char c :: nat) \<and> (of_char c :: nat) \<le> 90 then of_char c + 32 else of_char c)"
proof (cases "65 \<le> (of_char c :: nat) \<and> (of_char c :: nat) \<le> 90")
  case True
  then have "(of_char c :: nat) + 32 < 256" by arith
  then have "((of_char c :: nat) + 32) mod 256 = of_char c + 32" by (rule mod_less)
  then show ?thesis using True by (simp add: lower_char_def)
next
  case False
  then show ?thesis by (auto simp: lower_char_def)
qed

lemma case_fold_nat:
  fixes n m :: nat
  shows "((if 97 \<le> n \<and> n \<le> 122 then n - 32 else n) =
          (if 97 \<le> m \<and> m \<le> 122 then m - 32 else m)) \<longleftrightarrow>
         ((if 65 \<le> n \<and> n \<le> 90 then n + 32 else n) =
          (if 65 \<le> m \<and> m \<le> 90 then m + 32 else m))"
  by (auto split: if_splits)

lemma upper_char_eq_iff_lower_char_eq:
  "upper_char a = upper_char b \<longleftrightarrow> lower_char a = lower_char b"
proof -
  have "upper_char a = upper_char b \<longleftrightarrow>
        (of_char (upper_char a) :: nat) = of_char (upper_char b)"
    by simp
  also have "\<dots> \<longleftrightarrow> (of_char (lower_char a) :: nat) = of_char (lower_char b)"
    unfolding of_char_upper_char of_char_lower_char by (rule case_fold_nat)
  also have "\<dots> \<longleftrightarrow> lower_char a = lower_char b"
    by simp
  finally show ?thesis .
qed

lemma map_eq_iff_list_all2:
  "map f xs = map f ys \<longleftrightarrow> list_all2 (\<lambda>x y. f x = f y) xs ys"
proof (induction xs arbitrary: ys)
  case Nil
  then show ?case by simp
next
  case (Cons x xs)
  then show ?case by (cases ys) simp_all
qed

lemma upper_eq_iff: "upper s = upper t \<longleftrightarrow> case_insensitive_equal s t"
  by (simp add: upper_def case_insensitive_equal_def map_eq_iff_list_all2
      upper_char_eq_iff_lower_char_eq)

lemma upper_LFP: "upper ''LFP'' = ''LFP''"
  by (simp add: upper_def upper_char_def)

lemma upper_is_LFP_iff: "upper s = ''LFP'' \<longleftrightarrow> case_insensitive_equal s ''LFP''"
  using upper_eq_iff[of s "''LFP''"] by (simp only: upper_LFP)

subsection \<open>The parameters of one cell in closed form\<close>

lemma vrp_LFP: "py_round (100 / 3) (Suc 0) = 333 / 10"
  by (simp add: py_round_def round_half_even_def Let_def)

lemma vrp_MNC: "py_round 200 (Suc 0) = 200"
  by (simp add: py_round_def round_half_even_def Let_def)

lemma calculate_cell_parameters_eq:
  "calculate_cell_parameters tag cur g =
     Inr (\<lparr>voltage = (if upper tag = ''LFP'' then 3.2 else 3.6),
           current = cur,
           temperature = py_round (fst (random_uniform 25 40 g)) 1,
           capacity =
             float_round (float_mul (Finite (if upper tag = ''LFP'' then 3.2 else 3.6))
               (Finite cur)) 2,
           max_voltage = (if upper tag = ''LFP'' then 4.0 else 3.4),
           min_voltage = (if upper tag = ''LFP'' then 2.8 else 3.2),
           voltage_range_percent = (if upper tag = ''LFP'' then 33.3 else 200.0)\<rparr>,
          g\<lparr>drawn := Suc (drawn g)\<rparr>)"
proof (cases "upper tag = ''LFP''")
  case True
  then show ?thesis
    by (simp add: calculate_cell_parameters_def truediv_def vrp_LFP random_uniform_def
        random_random_def)
next
  case False
  then show ?thesis
    by (simp add: calculate_cell_parameters_def truediv_def vrp_MNC random_uniform_def
        random_random_def)
qed

lemma random_uniform_unit:
  assumes "0 \<le> samples g (drawn g)" "samples g (drawn g) \<le> 1"
  shows "25 \<le> fst (random_uniform 25 40 g) \<and> fst (random_uniform 25 40 g) \<le> 40"
  using assms by (simp add: random_uniform_def random_random_def)

subsection \<open>The maximum\<close>

lemma py_max_Max: "xs \<noteq> [] \<Longrightarrow> py_max xs = Inr (Max (set xs))"
proof -
  have f: "foldl (\<lambda>m y. if y > m then y else m) x ys = Max (set (x # ys))" for x :: real and ys
  proof (induction ys arbitrary: x)
    case Nil
    then show ?case by simp
  next
    case (Cons y ys)
    have "(if y > x then y else x) = max x y" by (simp add: max_def)
    then have "foldl (\<lambda>m y. if y > m then y else m) x (y # ys) = Max (set (max x y # ys))"
      using Cons.IH[of "max x y"] by simp
    also have "\<dots> = Max (set (x # y # ys))"
    proof (cases "ys = []")
      case True
      then show ?thesis by simp
    next
      case False
      then show ?thesis by (simp add: max.assoc)
    qed
    finally show ?case .
  qed
  assume "xs \<noteq> []"
  then obtain x ys where "xs = x # ys" by (cases xs) auto
  then show ?thesis using f[of x ys] by simp
qed

subsection \<open>Examples of tags\<close>

lemma case_insensitive_examples:
  "case_insensitive_equal ''lfp'' ''LFP''" "case_insensitive_equal ''Lfp'' ''LFP''"
  "\<not> case_insensitive_equal ''MNC'' ''LFP''" "\<not> case_insensitive_equal ''xyz'' ''LFP''"
  "\<not> case_insensitive_equal '''' ''LFP''"
  by code_simp+

section \<open>The claims\<close>

text \<open>
  Claim C1. For every current \<open>c > 0\<close>, \<^verbatim>\<open>calculate_cell_parameters\<close> returns, and
  the capacity of its result is \<^verbatim>\<open>round(nominal_voltage * c, 2)\<close>, the product being
  that of two doubles, where the nominal voltage is 3.2 when the tag equals \<^verbatim>\<open>LFP\<close>
  up to the case of its letters and 3.6 for every other tag.
\<close>

theorem capacity_is_rounded_product:
  assumes "0 < c"
  shows "\<exists>p g'. calculate_cell_parameters tag c g = Inr (p, g') \<and>
           capacity p =
             float_round
               (float_mul (Finite (if case_insensitive_equal tag ''LFP'' then 3.2 else 3.6))
                  (Finite c)) 2"
  by (simp add: calculate_cell_parameters_eq upper_is_LFP_iff)

text \<open>
  Instances: 3.2 times 2 gives 6.4; 3.2 times 1/128 is a double just above 0.025 and
  gives 0.03; 3.6 times 7/16 is a double just below 1.575 and gives 1.57; 3.6 times
  \<open>2 ^ 1023\<close> overflows, and the capacity is the infinity.
\<close>

theorem capacity_is_rounded_product_witness:
  "(0::real) < 2 \<and> (0::real) < 1 / 128 \<and> (0::real) < 7 / 16 \<and> (0::real) < 2 ^ 1023 \<and>
   map_sum id (capacity \<circ> fst) (calculate_cell_parameters ''lfp'' 2 example_rng)
     = Inr (Finite 6.4) \<and>
   map_sum id (capacity \<circ> fst) (calculate_cell_parameters ''lfp'' (1 / 128) example_rng)
     = Inr (Finite 0.03) \<and>
   map_sum id (capacity \<circ> fst) (calculate_cell_parameters ''MNC'' (7 / 16) example_rng)
     = Inr (Finite 1.57) \<and>
   map_sum id (capacity \<circ> fst) (calculate_cell_parameters ''MNC'' (2 ^ 1023) example_rng)
     = Inr PosInf"
proof -
  have pos: "(0::real) < 2" "(0::real) < 1 / 128" "(0::real) < 7 / 16" "(0::real) < 2 ^ 1023"
    by simp_all
  have r: "float_round (float_mul (Finite 3.2) (Finite 2)) 2 = Finite 6.4"
    "float_round (float_mul (Finite 3.2) (Finite (1 / 128))) 2 = Finite 0.03"
    "float_round (float_mul (Finite 3.6) (Finite (7 / 16))) 2 = Finite 1.57"
    by (simp_all add: float_mul_def float_round_def double_of_def example_doubles py_round_def
        round_half_even_def Let_def)
  from capacity_is_rounded_product [OF pos(1), of "''lfp''" example_rng]
  have a: "map_sum id (capacity \<circ> fst) (calculate_cell_parameters ''lfp'' 2 example_rng)
     = Inr (Finite 6.4)"
    using r(1) by (auto simp: case_insensitive_examples)
  from capacity_is_rounded_product [OF pos(2), of "''lfp''" example_rng]
  have b: "map_sum id (capacity \<circ> fst) (calculate_cell_parameters ''lfp'' (1 / 128) example_rng)
     = Inr (Finite 0.03)"
    using r(2) by (auto simp: case_insensitive_examples)
  from capacity_is_rounded_product [OF pos(3), of "''MNC''" example_rng]
  have c: "map_sum id (capacity \<circ> fst) (calculate_cell_parameters ''MNC'' (7 / 16) example_rng)
     = Inr (Finite 1.57)"
    using r(3) by (auto simp: case_insensitive_examples)
  from capacity_is_rounded_product [OF pos(4), of "''MNC''" example_rng]
  obtain p g' where
    pg: "calculate_cell_parameters ''MNC'' (2 ^ 1023) example_rng = Inr (p, g')" and
    cap: "capacity p =
      float_round (float_mul (Finite (if case_insensitive_equal ''MNC'' ''LFP'' then 3.2 else 3.6))
        (Finite (2 ^ 1023))) 2"
    by blast
  have "capacity p = float_round (float_mul (Finite 3.6) (Finite (2 ^ 1023))) 2"
    using cap by (simp only: case_insensitive_examples if_False)
  then have "capacity p = PosInf"
    by (simp only: overflow_example)
  then have d: "map_sum id (capacity \<circ> fst)
      (calculate_cell_parameters ''MNC'' (2 ^ 1023) example_rng) = Inr PosInf"
    by (simp only: pg map_sum.simps comp_apply fst_conv)
  from pos a b c d show ?thesis by blast
qed

text \<open>
  Claim C4. For every tag, \<^verbatim>\<open>calculate_cell_parameters\<close> chooses the three voltages
  by a case-insensitive comparison of the tag with \<^verbatim>\<open>LFP\<close>: a tag that equals
  \<^verbatim>\<open>LFP\<close> up to the case of its letters gets nominal 3.2, maximum 4.0, minimum 2.8;
  every other tag, an unknown or malformed one too, gets nominal 3.6, maximum 3.4,
  minimum 3.2, and no error is raised.
\<close>

theorem profile_by_case_insensitive_match:
  "\<exists>p g'. calculate_cell_parameters tag c g = Inr (p, g') \<and>
     (voltage p, max_voltage p, min_voltage p) =
       (if case_insensitive_equal tag ''LFP'' then (3.2, 4.0, 2.8) else (3.6, 3.4, 3.2))"
  by (simp add: calculate_cell_parameters_eq upper_is_LFP_iff)

theorem profile_by_case_insensitive_match_witness:
  "map_sum id ((\<lambda>p. (voltage p, max_voltage p, min_voltage p)) \<circ> fst)
     (calculate_cell_parameters ''Lfp'' 2 example_rng) = Inr (3.2, 4.0, 2.8) \<and>
   map_sum id ((\<lambda>p. (voltage p, max_voltage p, min_voltage p)) \<circ> fst)
     (calculate_cell_parameters ''xyz'' 2 example_rng) = Inr (3.6, 3.4, 3.2) \<and>
   map_sum id ((\<lambda>p. (voltage p, max_voltage p, min_voltage p)) \<circ> fst)
     (calculate_cell_parameters '''' 2 example_rng) = Inr (3.6, 3.4, 3.2)"
  using profile_by_case_insensitive_match [of "''Lfp''" 2 example_rng]
    profile_by_case_insensitive_match [of "''xyz''" 2 example_rng]
    profile_by_case_insensitive_match [of "''''" 2 example_rng]
  by (auto simp: case_insensitive_examples)

text \<open>
  Claim C5. The claim: the voltage range percentage is
  \<^verbatim>\<open>round(((nominal - min_voltage) / (max_voltage - min_voltage)) * 100, 1)\<close> when
  \<^verbatim>\<open>max_voltage > min_voltage\<close> and 50.0 otherwise, so that it is 33.3 for \<^verbatim>\<open>LFP\<close>
  and 50.0 for \<^verbatim>\<open>MNC\<close>. The last part fails: the constants of \<^verbatim>\<open>MNC\<close> are
  maximum 3.4 and minimum 3.2, and 3.4 is greater than 3.2, so the formula is used and
  gives \<open>(3.6 - 3.2) / (3.4 - 3.2) * 100 = 200\<close>.
\<close>

theorem mnc_range_percent_is_not_50:
  "map_sum id (voltage_range_percent \<circ> fst)
     (calculate_cell_parameters ''MNC'' 1 example_rng) = Inr 200 \<and>
   map_sum id (voltage_range_percent \<circ> fst)
     (calculate_cell_parameters ''MNC'' 1 example_rng) \<noteq> Inr 50 \<and>
   map_sum id ((\<lambda>p. max_voltage p > min_voltage p) \<circ> fst)
     (calculate_cell_parameters ''MNC'' 1 example_rng) = Inr True"
proof -
  have "upper ''MNC'' \<noteq> ''LFP''"
    by (simp add: upper_def upper_char_def)
  then show ?thesis
    by (simp add: calculate_cell_parameters_eq)
qed

text \<open>
  Claim C5, as amended. For every current and every tag the function returns; the
  voltage range percentage of the result is the rounded formula when the maximum is
  greater than the minimum and 50.0 otherwise; the maximum is greater than the minimum
  for both kinds of cell, so the formula is always the branch taken; and the value is
  33.3 for a tag that equals \<^verbatim>\<open>LFP\<close> up to case and 200.0 for every other tag.
\<close>

theorem voltage_range_percent_values:
  "\<exists>p g'. calculate_cell_parameters tag c g = Inr (p, g') \<and>
     voltage_range_percent p =
       (if max_voltage p > min_voltage p
        then py_round (((voltage p - min_voltage p) / (max_voltage p - min_voltage p)) * 100) 1
        else 50.0) \<and>
     max_voltage p > min_voltage p \<and>
     voltage_range_percent p = (if case_insensitive_equal tag ''LFP'' then 33.3 else 200.0)"
  by (simp add: calculate_cell_parameters_eq upper_is_LFP_iff vrp_LFP vrp_MNC)

theorem voltage_range_percent_values_witness:
  "map_sum id (voltage_range_percent \<circ> fst)
     (calculate_cell_parameters ''lfp'' 2 example_rng) = Inr 33.3 \<and>
   map_sum id (voltage_range_percent \<circ> fst)
     (calculate_cell_parameters ''MNC'' 1.5 example_rng) = Inr 200"
  using voltage_range_percent_values [of "''lfp''" 2 example_rng]
    voltage_range_percent_values [of "''MNC''" "1.5" example_rng]
  by (auto simp: case_insensitive_examples)

text \<open>
  Claim C9. The claim: the voltage range percentage of every result lies within
  \<open>[0, 100]\<close>, its only values being 33.3 and 50.0, so that the clamp of
  \<^verbatim>\<open>display_cell_result\<close> changes nothing. It fails for \<^verbatim>\<open>MNC\<close>: the percentage is
  200, and the clamp turns the fraction 2.0 into 1.0.
\<close>

theorem mnc_range_percent_exceeds_100:
  "map_sum id (voltage_range_percent \<circ> fst)
     (calculate_cell_parameters ''MNC'' 1 example_rng) = Inr 200 \<and>
   \<not> (200 :: real) \<le> 100 \<and>
   map_sum id ((\<lambda>p. (progress_value p, voltage_range_percent p / 100)) \<circ> fst)
     (calculate_cell_parameters ''MNC'' 1 example_rng) = Inr (1, 2)"
proof -
  have "upper ''MNC'' \<noteq> ''LFP''"
    by (simp add: upper_def upper_char_def)
  then show ?thesis
    by (simp add: calculate_cell_parameters_eq progress_value_def)
qed

text \<open>
  Claim C9, as amended. The voltage range percentage of every result is 33.3 (tag
  \<^verbatim>\<open>LFP\<close> up to case) or 200.0 (every other tag), hence within \<open>[0, 200]\<close>; the
  progress fraction that \<^verbatim>\<open>display_cell_result\<close> computes from it lies within
  \<open>[0, 1]\<close>: it is the percentage divided by 100 for \<^verbatim>\<open>LFP\<close>, where the clamp changes
  nothing, and 1.0 for every other tag, where the clamp cuts 2.0 down.
\<close>

theorem voltage_range_percent_and_clamp:
  "\<exists>p g'. calculate_cell_parameters tag c g = Inr (p, g') \<and>
     (voltage_range_percent p = 33.3 \<or> voltage_range_percent p = 200.0) \<and>
     0 \<le> voltage_range_percent p \<and> voltage_range_percent p \<le> 200 \<and>
     0 \<le> progress_value p \<and> progress_value p \<le> 1 \<and>
     progress_value p =
       (if case_insensitive_equal tag ''LFP'' then voltage_range_percent p / 100 else 1.0)"
  by (simp add: calculate_cell_parameters_eq upper_is_LFP_iff progress_value_def)

theorem voltage_range_percent_and_clamp_witness:
  "map_sum id ((\<lambda>p. (voltage_range_percent p, progress_value p)) \<circ> fst)
     (calculate_cell_parameters ''LFP'' 2 example_rng) = Inr (33.3, 0.333) \<and>
   map_sum id ((\<lambda>p. (voltage_range_percent p, progress_value p)) \<circ> fst)
     (calculate_cell_parameters ''MNC'' 2 example_rng) = Inr (200, 1)"
proof -
  have ci: "case_insensitive_equal ''LFP'' ''LFP''" "\<not> case_insensitive_equal ''MNC'' ''LFP''"
    by code_simp+
  obtain p g' where p: "calculate_cell_parameters ''LFP'' 2 example_rng = Inr (p, g')"
    "voltage_range_percent p = 33.3 \<or> voltage_range_percent p = 200.0"
    "progress_value p = voltage_range_percent p / 100"
    "progress_value p \<le> 1"
    using voltage_range_percent_and_clamp [of "''LFP''" 2 example_rng] ci by auto
  then have "voltage_range_percent p = 33.3" by auto
  then have a: "map_sum id ((\<lambda>p. (voltage_range_percent p, progress_value p)) \<circ> fst)
     (calculate_cell_parameters ''LFP'' 2 example_rng) = Inr (33.3, 0.333)"
    using p by simp
  obtain q h' where q: "calculate_cell_parameters ''MNC'' 2 example_rng = Inr (q, h')"
    "voltage_range_percent q = 33.3 \<or> voltage_range_percent q = 200.0"
    "progress_value q = 1"
    using voltage_range_percent_and_clamp [of "''MNC''" 2 example_rng] ci by auto
  have "progress_value q \<noteq> 333 / 1000" using q(3) by simp
  then have "voltage_range_percent q \<noteq> 33.3"
    by (auto simp: progress_value_def)
  then have "voltage_range_percent q = 200" using q(2) by simp
  then have b: "map_sum id ((\<lambda>p. (voltage_range_percent p, progress_value p)) \<circ> fst)
     (calculate_cell_parameters ''MNC'' 2 example_rng) = Inr (200, 1)"
    using q by simp
  show ?thesis using a b by simp
qed

text \<open>
  Claim C6. The temperature of every result is the draw of \<^verbatim>\<open>random.uniform(25, 40)\<close>
  rounded to one decimal place; when the draw lies within \<open>[25, 40]\<close>, the
  temperature lies within \<open>[25, 40]\<close> too, and ten times the temperature is a whole
  number.
\<close>

theorem temperature_in_range:
  assumes "25 \<le> fst (random_uniform 25 40 g)" and "fst (random_uniform 25 40 g) \<le> 40"
  shows "\<exists>p g'. calculate_cell_parameters tag c g = Inr (p, g') \<and>
           temperature p = py_round (fst (random_uniform 25 40 g)) 1 \<and>
           25 \<le> temperature p \<and> temperature p \<le> 40 \<and>
           temperature p * 10 \<in> \<int>"
proof -
  have "25 \<le> py_round (fst (random_uniform 25 40 g)) 1 \<and>
        py_round (fst (random_uniform 25 40 g)) 1 \<le> 40"
    using assms by (rule py_round_25_40)
  moreover have "py_round (fst (random_uniform 25 40 g)) 1 * 10 \<in> \<int>"
    using py_round_decimal [of "fst (random_uniform 25 40 g)" 1] by simp
  ultimately show ?thesis
    by (simp add: calculate_cell_parameters_eq)
qed

theorem temperature_in_range_witness:
  "25 \<le> fst (random_uniform 25 40 (example_rng\<lparr>drawn := 2\<rparr>)) \<and>
   fst (random_uniform 25 40 (example_rng\<lparr>drawn := 2\<rparr>)) \<le> 40 \<and>
   fst (random_uniform 25 40 (example_rng\<lparr>drawn := 2\<rparr>)) = 28.75 \<and>
   map_sum id (temperature \<circ> fst)
     (calculate_cell_parameters ''LFP'' 2 (example_rng\<lparr>drawn := 2\<rparr>)) = Inr 28.8"
proof -
  have u: "fst (random_uniform 25 40 (example_rng\<lparr>drawn := 2\<rparr>)) = 28.75"
    by (simp add: random_uniform_def random_random_def example_rng_def)
  have lo: "25 \<le> fst (random_uniform 25 40 (example_rng\<lparr>drawn := 2\<rparr>))"
    and hi: "fst (random_uniform 25 40 (example_rng\<lparr>drawn := 2\<rparr>)) \<le> 40"
    by (simp_all add: u)
  have r: "py_round 28.75 1 = 28.8"
    by (simp add: py_round_def round_half_even_def)
  from temperature_in_range [OF lo hi, of "''LFP''" 2]
  obtain p g' where
    pg: "calculate_cell_parameters ''LFP'' 2 (example_rng\<lparr>drawn := 2\<rparr>) = Inr (p, g')" and
    t: "temperature p = py_round (fst (random_uniform 25 40 (example_rng\<lparr>drawn := 2\<rparr>))) 1"
    by blast
  have "temperature p = 28.8"
    by (simp only: t u r)
  then have "map_sum id (temperature \<circ> fst)
     (calculate_cell_parameters ''LFP'' 2 (example_rng\<lparr>drawn := 2\<rparr>)) = Inr 28.8"
    by (simp add: pg)
  with lo hi u show ?thesis by blast
qed

text \<open>
  Claim C7. Two calls of \<^verbatim>\<open>calculate_cell_parameters\<close> with the same tag and the same
  current, on any two states of the random generator, both return, and their results
  have the same voltage, capacity, maximum voltage, minimum voltage and voltage range
  percentage. The temperature of each result is its own draw rounded, so it is the one
  key that can differ.
\<close>

theorem fields_independent_of_random_draw:
  "\<exists>p1 g1' p2 g2'.
     calculate_cell_parameters tag c g1 = Inr (p1, g1') \<and>
     calculate_cell_parameters tag c g2 = Inr (p2, g2') \<and>
     voltage p1 = voltage p2 \<and> capacity p1 = capacity p2 \<and>
     max_voltage p1 = max_voltage p2 \<and> min_voltage p1 = min_voltage p2 \<and>
     voltage_range_percent p1 = voltage_range_percent p2 \<and>
     current p1 = current p2 \<and>
     temperature p1 = py_round (fst (random_uniform 25 40 g1)) 1 \<and>
     temperature p2 = py_round (fst (random_uniform 25 40 g2)) 1"
  by (simp add: calculate_cell_parameters_eq)

text \<open>
  An instance: the first and the second call on the example generator agree on the
  five keys, and their temperatures are 32.5 and 30.0.
\<close>

theorem fields_independent_of_random_draw_witness:
  "map_sum id ((\<lambda>p. (voltage p, capacity p, max_voltage p, min_voltage p,
       voltage_range_percent p)) \<circ> fst) (calculate_cell_parameters ''LFP'' 2 example_rng) =
   map_sum id ((\<lambda>p. (voltage p, capacity p, max_voltage p, min_voltage p,
       voltage_range_percent p)) \<circ> fst)
     (calculate_cell_parameters ''LFP'' 2 (example_rng\<lparr>drawn := 1\<rparr>)) \<and>
   map_sum id (temperature \<circ> fst) (calculate_cell_parameters ''LFP'' 2 example_rng) = Inr 32.5 \<and>
   map_sum id (temperature \<circ> fst)
     (calculate_cell_parameters ''LFP'' 2 (example_rng\<lparr>drawn := 1\<rparr>)) = Inr 30"
proof -
  have u: "fst (random_uniform 25 40 example_rng) = 32.5"
    "fst (random_uniform 25 40 (example_rng\<lparr>drawn := 1\<rparr>)) = 30"
    by (simp_all add: random_uniform_def random_random_def example_rng_def)
  have r: "py_round 32.5 1 = 32.5" "py_round 30 1 = 30"
    by (simp_all add: py_round_def round_half_even_def)
  from fields_independent_of_random_draw [of "''LFP''" 2 example_rng "example_rng\<lparr>drawn := 1\<rparr>"]
  obtain p1 g1' p2 g2' where
    c1: "calculate_cell_parameters ''LFP'' 2 example_rng = Inr (p1, g1')" and
    c2: "calculate_cell_parameters ''LFP'' 2 (example_rng\<lparr>drawn := 1\<rparr>) = Inr (p2, g2')" and
    eq: "voltage p1 = voltage p2" "capacity p1 = capacity p2"
      "max_voltage p1 = max_voltage p2" "min_voltage p1 = min_voltage p2"
      "voltage_range_percent p1 = voltage_range_percent p2" and
    t1: "temperature p1 = py_round (fst (random_uniform 25 40 example_rng)) 1" and
    t2: "temperature p2 = py_round (fst (random_uniform 25 40 (example_rng\<lparr>drawn := 1\<rparr>))) 1"
    by blast
  have "temperature p1 = 32.5" "temperature p2 = 30"
    by (simp_all only: t1 t2 u r)
  then show ?thesis
    by (simp only: c1 c2 eq map_sum.simps comp_apply fst_conv id_apply simp_thms)
qed

text \<open>
  Claim C10. \<^verbatim>\<open>calculate_cell_parameters\<close> returns for every real current, zero and
  negative ones too, and every tag: there is no validation of the current. The result
  echoes the current, and its capacity is \<^verbatim>\<open>round(voltage * current, 2)\<close>, the
  product being that of two doubles; the capacity is zero when the current is zero and
  is not positive when the current is negative.
\<close>

theorem total_on_every_current:
  "\<exists>p g'. calculate_cell_parameters tag c g = Inr (p, g') \<and>
     current p = c \<and>
     capacity p = float_round (float_mul (Finite (voltage p)) (Finite c)) 2 \<and>
     (c = 0 \<longrightarrow> capacity p = Finite 0) \<and>
     (c < 0 \<longrightarrow> float_le (capacity p) (Finite 0))"
proof -
  have v: "double_of (Finite 3.2) = Finite (3602879701896397 / 1125899906842624)"
    "double_of (Finite 3.6) = Finite (8106479329266893 / 2251799813685248)"
    by (simp_all add: double_of_def example_doubles)
  have neg: "float_le (float_round (float_mul (Finite 3.2) (Finite c)) 2) (Finite 0)"
    "float_le (float_round (float_mul (Finite 3.6) (Finite c)) 2) (Finite 0)" if "c < 0"
  proof -
    have "nonpositive (Finite c)"
      using that by (simp add: nonpositive_def)
    then have "nonpositive (float_mul (Finite 3.2) (Finite c))"
      "nonpositive (float_mul (Finite 3.6) (Finite c))"
      using v by (auto intro: float_mul_nonpositive)
    then show "float_le (float_round (float_mul (Finite 3.2) (Finite c)) 2) (Finite 0)"
      "float_le (float_round (float_mul (Finite 3.6) (Finite c)) 2) (Finite 0)"
      by (auto intro: float_le_zero float_round_nonpositive)
  qed
  have zero: "float_round (float_mul (Finite 3.2) (Finite 0)) 2 = Finite 0"
    "float_round (float_mul (Finite 3.6) (Finite 0)) 2 = Finite 0"
    using v by (auto intro: float_mul_zero)
  show ?thesis
  proof (cases "upper tag = ''LFP''")
    case True
    then show ?thesis
      using neg(1) zero(1) by (auto simp: calculate_cell_parameters_eq)
  next
    case False
    then show ?thesis
      using neg(2) zero(2) by (auto simp: calculate_cell_parameters_eq)
  qed
qed

text \<open>
  Instances: 3.6 times \<open>- 1\<close> gives \<open>- 3.6\<close>; 3.2 times \<open>- 1/128\<close> is a double just
  below \<open>- 0.025\<close> and gives \<open>- 0.03\<close>; the current 0 gives the capacity 0.
\<close>

theorem total_on_every_current_witness:
  "(-1 :: real) < 0 \<and> (- (1 / 128) :: real) < 0 \<and>
   map_sum id ((\<lambda>p. (current p, capacity p)) \<circ> fst)
     (calculate_cell_parameters ''MNC'' (-1) example_rng) = Inr (-1, Finite (-3.6)) \<and>
   map_sum id ((\<lambda>p. (current p, capacity p)) \<circ> fst)
     (calculate_cell_parameters ''LFP'' (- (1 / 128)) example_rng)
       = Inr (- (1 / 128), Finite (-0.03)) \<and>
   map_sum id ((\<lambda>p. (current p, capacity p)) \<circ> fst)
     (calculate_cell_parameters ''LFP'' 0 example_rng) = Inr (0, Finite 0)"
proof -
  have r: "float_round (float_mul (Finite 3.6) (Finite (- 1))) 2 = Finite (- 3.6)"
    "float_round (float_mul (Finite 3.2) (Finite (- (1 / 128)))) 2 = Finite (- 0.03)"
    by (simp_all add: float_mul_def float_round_def double_of_def example_doubles py_round_def
        round_half_even_def Let_def)
  have v: "map_sum id (voltage \<circ> fst) (calculate_cell_parameters ''MNC'' (- 1) example_rng)
      = Inr 3.6"
    "map_sum id (voltage \<circ> fst) (calculate_cell_parameters ''LFP'' (- (1 / 128)) example_rng)
      = Inr 3.2"
    by (simp_all add: calculate_cell_parameters_eq upper_def upper_char_def)
  from total_on_every_current [of "''MNC''" "- 1" example_rng]
  obtain p g' where
    pg: "calculate_cell_parameters ''MNC'' (- 1) example_rng = Inr (p, g')" and
    cur: "current p = - 1" and
    cap: "capacity p = float_round (float_mul (Finite (voltage p)) (Finite (- 1))) 2"
    by blast
  have "voltage p = 3.6"
    using v(1) by (simp add: pg)
  then have "capacity p = Finite (- 3.6)"
    by (simp only: cap r)
  then have a: "map_sum id ((\<lambda>p. (current p, capacity p)) \<circ> fst)
     (calculate_cell_parameters ''MNC'' (- 1) example_rng) = Inr (- 1, Finite (- 3.6))"
    by (simp add: pg cur)
  from total_on_every_current [of "''LFP''" "- (1 / 128)" example_rng]
  obtain q h' where
    qh: "calculate_cell_parameters ''LFP'' (- (1 / 128)) example_rng = Inr (q, h')" and
    cur': "current q = - (1 / 128)" and
    cap': "capacity q = float_round (float_mul (Finite (voltage q)) (Finite (- (1 / 128)))) 2"
    by blast
  have "voltage q = 3.2"
    using v(2) by (simp add: qh)
  then have "capacity q = Finite (- 0.03)"
    by (simp only: cap' r)
  then have b: "map_sum id ((\<lambda>p. (current p, capacity p)) \<circ> fst)
     (calculate_cell_parameters ''LFP'' (- (1 / 128)) example_rng)
       = Inr (- (1 / 128), Finite (- 0.03))"
    by (simp add: qh cur')
  from total_on_every_current [of "''LFP''" 0 example_rng]
  have c: "map_sum id ((\<lambda>p. (current p, capacity p)) \<circ> fst)
     (calculate_cell_parameters ''LFP'' 0 example_rng) = Inr (0, Finite 0)"
    by auto
  show ?thesis using a b c by simp
qed




text \<open>
  Claim C3. The claim: on the empty list of results the summary metrics fail with an
  error of the kind \<open>EmptyResultSet\<close>, the error of an empty input, and return no
  summary. The program has no such error: on the empty list the division by
  \<^verbatim>\<open>len(results)\<close> raises \<^verbatim>\<open>ZeroDivisionError\<close>.
\<close>

theorem empty_results_error_is_not_EmptyResultSet:
  "summary_metrics [] = Inl ZeroDivisionError \<and> summary_metrics [] \<noteq> Inl EmptyResultSet"
proof -
  have "double_of (Finite 0) = Finite 0"
    by (simp add: double_of_def nearest_double_0)
  then show ?thesis
    by (simp add: summary_metrics_def float_truediv_def)
qed

text \<open>
  Claim C3, as amended. On the empty list of results the summary metrics are not
  returned: the computation ends with the \<^verbatim>\<open>ZeroDivisionError\<close> of the division by
  \<^verbatim>\<open>len(results)\<close> in the average temperature. The empty list is the one input on
  which the summary metrics end with an error.
\<close>

theorem summary_of_empty_results_fails:
  "summary_metrics [] = Inl ZeroDivisionError \<and>
   isl (summary_metrics results) = (results = [])"
proof (cases "results = []")
  case True
  have "double_of (Finite 0) = Finite 0"
    by (simp add: double_of_def nearest_double_0)
  then show ?thesis
    using True by (simp add: summary_metrics_def float_truediv_def)
next
  case False
  have z: "double_of (Finite 0) = Finite 0"
    by (simp add: double_of_def nearest_double_0)
  have "0 < length results"
    using False by simp
  then have "double_of (Finite (real (length results))) \<noteq> Finite 0"
    by (rule real_nat_nonzero)
  moreover have "py_max (map voltage results) = Inr (Max (set (map voltage results)))"
    using False by (intro py_max_Max) simp
  ultimately show ?thesis
    using False z by (simp add: summary_metrics_def float_truediv_def)
qed

subsection \<open>The loop over the cells\<close>

lemma truncate_make_result: "params.truncate (make_result cell p) = p"
  by (simp add: make_result_def params.truncate_def)

lemma calculate_cell_parameters_returns:
  "\<exists>p. calculate_cell_parameters tag cur g = Inr (p, g\<lparr>drawn := Suc (drawn g)\<rparr>)"
  by (simp add: calculate_cell_parameters_eq)

lemma calculate_cell_parameters_current:
  "calculate_cell_parameters tag cur g = Inr (p, g') \<Longrightarrow> current p = cur"
  by (auto simp: calculate_cell_parameters_eq)

lemma calculate_cell_parameters_temperature:
  "calculate_cell_parameters tag cur g = Inr (p, g') \<Longrightarrow>
   temperature p = py_round (fst (random_uniform 25 40 g)) 1"
  by (auto simp: calculate_cell_parameters_eq)

text \<open>
  The loop started after \<open>n\<close> draws on the accumulator \<open>acc\<close> returns \<open>acc\<close> extended
  by one result for each cell, in the order of the cells; the result of the cell at
  index \<open>i\<close> is made of that cell and of the parameters that the call on the generator
  after \<open>n + i\<close> draws returns.
\<close>

lemma calculate_all_returns:
  "\<exists>rs. calculate_all cells g acc = Inr (acc @ rs, g\<lparr>drawn := drawn g + length cells\<rparr>) \<and>
        length rs = length cells \<and>
        (\<forall>i<length cells.
           calculate_cell_parameters (cell_type (cells ! i)) (cell_current (cells ! i))
             (g\<lparr>drawn := drawn g + i\<rparr>) =
           Inr (params.truncate (rs ! i), g\<lparr>drawn := drawn g + Suc i\<rparr>) \<and>
           rs ! i = make_result (cells ! i) (params.truncate (rs ! i)))"
proof (induction cells arbitrary: g acc)
  case Nil
  then show ?case by simp
next
  case (Cons cell cells)
  obtain p where p: "calculate_cell_parameters (cell_type cell) (cell_current cell) g =
      Inr (p, g\<lparr>drawn := Suc (drawn g)\<rparr>)"
    using calculate_cell_parameters_returns by blast
  let ?g = "g\<lparr>drawn := Suc (drawn g)\<rparr>"
  from Cons.IH [of ?g "acc @ [make_result cell p]"]
  obtain rs where
    rs: "calculate_all cells ?g (acc @ [make_result cell p]) =
           Inr ((acc @ [make_result cell p]) @ rs, ?g\<lparr>drawn := drawn ?g + length cells\<rparr>)" and
    len: "length rs = length cells" and
    ith: "\<And>i. i < length cells \<Longrightarrow>
           calculate_cell_parameters (cell_type (cells ! i)) (cell_current (cells ! i))
             (?g\<lparr>drawn := drawn ?g + i\<rparr>) =
           Inr (params.truncate (rs ! i), ?g\<lparr>drawn := drawn ?g + Suc i\<rparr>) \<and>
           rs ! i = make_result (cells ! i) (params.truncate (rs ! i))"
    by blast
  let ?rs = "make_result cell p # rs"
  have "calculate_all (cell # cells) g acc =
          Inr (acc @ ?rs, g\<lparr>drawn := drawn g + length (cell # cells)\<rparr>)"
    using p rs by simp
  moreover have "length ?rs = length (cell # cells)"
    using len by simp
  moreover have "calculate_cell_parameters (cell_type ((cell # cells) ! i))
             (cell_current ((cell # cells) ! i)) (g\<lparr>drawn := drawn g + i\<rparr>) =
           Inr (params.truncate (?rs ! i), g\<lparr>drawn := drawn g + Suc i\<rparr>) \<and>
           ?rs ! i = make_result ((cell # cells) ! i) (params.truncate (?rs ! i))"
    if "i < length (cell # cells)" for i
  proof (cases i)
    case 0
    then show ?thesis using p by (simp add: truncate_make_result)
  next
    case (Suc j)
    then have "j < length cells" using that by simp
    from ith [OF this] show ?thesis using Suc by simp
  qed
  ultimately show ?case by blast
qed

text \<open>
  Claim C8. For every list of cell configurations and every state of the random
  generator, the loop of \<^verbatim>\<open>main\<close> returns a list of results of the same length, in
  the same order: the result at index \<open>i\<close> carries the identifier and the tag of the
  configuration at index \<open>i\<close> and echoes its current. The function is called once for
  each configuration: the generator has advanced by one draw for each of them, and the
  parameters of the result at index \<open>i\<close> are those that the call for the configuration
  at index \<open>i\<close> returns on the generator after \<open>i\<close> draws.
\<close>

theorem results_follow_configurations:
  "\<exists>results g'.
     calculate_results cells_data g = Inr (results, g') \<and>
     length results = length cells_data \<and>
     drawn g' = drawn g + length cells_data \<and>
     (\<forall>i<length cells_data.
        result_id (results ! i) = cell_id (cells_data ! i) \<and>
        result_type (results ! i) = cell_type (cells_data ! i) \<and>
        current (results ! i) = cell_current (cells_data ! i) \<and>
        calculate_cell_parameters (cell_type (cells_data ! i)) (cell_current (cells_data ! i))
          (g\<lparr>drawn := drawn g + i\<rparr>) =
        Inr (params.truncate (results ! i), g\<lparr>drawn := drawn g + Suc i\<rparr>))"
proof -
  from calculate_all_returns [of cells_data g "[]"]
  obtain rs where
    rs: "calculate_all cells_data g [] = Inr (rs, g\<lparr>drawn := drawn g + length cells_data\<rparr>)" and
    len: "length rs = length cells_data" and
    ith: "\<And>i. i < length cells_data \<Longrightarrow>
           calculate_cell_parameters (cell_type (cells_data ! i)) (cell_current (cells_data ! i))
             (g\<lparr>drawn := drawn g + i\<rparr>) =
           Inr (params.truncate (rs ! i), g\<lparr>drawn := drawn g + Suc i\<rparr>) \<and>
           rs ! i = make_result (cells_data ! i) (params.truncate (rs ! i))"
    by auto
  have "result_id (rs ! i) = cell_id (cells_data ! i) \<and>
        result_type (rs ! i) = cell_type (cells_data ! i) \<and>
        current (rs ! i) = cell_current (cells_data ! i) \<and>
        calculate_cell_parameters (cell_type (cells_data ! i)) (cell_current (cells_data ! i))
          (g\<lparr>drawn := drawn g + i\<rparr>) =
        Inr (params.truncate (rs ! i), g\<lparr>drawn := drawn g + Suc i\<rparr>)"
    if "i < length cells_data" for i
  proof -
    from ith [OF that] have
      c: "calculate_cell_parameters (cell_type (cells_data ! i)) (cell_current (cells_data ! i))
             (g\<lparr>drawn := drawn g + i\<rparr>) =
           Inr (params.truncate (rs ! i), g\<lparr>drawn := drawn g + Suc i\<rparr>)" and
      m: "rs ! i = make_result (cells_data ! i) (params.truncate (rs ! i))"
      by blast+
    have "current (params.truncate (rs ! i)) = cell_current (cells_data ! i)"
      using c by (rule calculate_cell_parameters_current)
    moreover have "result_id (rs ! i) = cell_id (cells_data ! i)"
      "result_type (rs ! i) = cell_type (cells_data ! i)"
      "current (rs ! i) = current (params.truncate (rs ! i))"
      by (subst m, simp add: make_result_def)+
    ultimately show ?thesis using c by simp
  qed
  then show ?thesis
    using rs len by (simp add: calculate_results_def)
qed

text \<open>
  The three cells of the end-to-end scenario of the specification, on the example
  generator: three results; the one at index 1 carries identifier 2 and tag \<^verbatim>\<open>MNC\<close>,
  echoes the current 1.5 and has the temperature of the second draw; three samples
  have been drawn.
\<close>

theorem results_follow_configurations_witness:
  "(1::nat) < length [\<lparr>cell_id = 1, cell_type = ''LFP'', cell_current = 2.0\<rparr>,
                      \<lparr>cell_id = 2, cell_type = ''MNC'', cell_current = 1.5\<rparr>,
                      \<lparr>cell_id = 3, cell_type = ''LFP'', cell_current = 3.0\<rparr>] \<and>
   map_sum id (\<lambda>(rs, g'). (length rs, result_id (rs ! 1), result_type (rs ! 1),
                             current (rs ! 1), temperature (rs ! 1), drawn g'))
     (calculate_results [\<lparr>cell_id = 1, cell_type = ''LFP'', cell_current = 2.0\<rparr>,
                         \<lparr>cell_id = 2, cell_type = ''MNC'', cell_current = 1.5\<rparr>,
                         \<lparr>cell_id = 3, cell_type = ''LFP'', cell_current = 3.0\<rparr>] example_rng)
   = Inr (3, 2, ''MNC'', 1.5, 30, 3)"
proof -
  let ?cells = "[\<lparr>cell_id = 1, cell_type = ''LFP'', cell_current = 2.0\<rparr>,
                 \<lparr>cell_id = 2, cell_type = ''MNC'', cell_current = 1.5\<rparr>,
                 \<lparr>cell_id = 3, cell_type = ''LFP'', cell_current = 3.0\<rparr>]"
  have one: "(1::nat) < length ?cells" by simp
  from results_follow_configurations [of ?cells example_rng]
  obtain rs g' where
    res: "calculate_results ?cells example_rng = Inr (rs, g')" and
    len: "length rs = length ?cells" and
    dr: "drawn g' = drawn example_rng + length ?cells" and
    ith: "\<forall>i<length ?cells.
        result_id (rs ! i) = cell_id (?cells ! i) \<and>
        result_type (rs ! i) = cell_type (?cells ! i) \<and>
        current (rs ! i) = cell_current (?cells ! i) \<and>
        calculate_cell_parameters (cell_type (?cells ! i)) (cell_current (?cells ! i))
          (example_rng\<lparr>drawn := drawn example_rng + i\<rparr>) =
        Inr (params.truncate (rs ! i), example_rng\<lparr>drawn := drawn example_rng + Suc i\<rparr>)"
    by blast
  from ith one have
    a: "result_id (rs ! 1) = 2" "result_type (rs ! 1) = ''MNC''" "current (rs ! 1) = 1.5" and
    c: "calculate_cell_parameters ''MNC'' 1.5 (example_rng\<lparr>drawn := drawn example_rng + 1\<rparr>) =
          Inr (params.truncate (rs ! 1), example_rng\<lparr>drawn := drawn example_rng + Suc 1\<rparr>)"
    by auto
  have u: "fst (random_uniform 25 40 (example_rng\<lparr>drawn := drawn example_rng + 1\<rparr>)) = 30"
    by (simp add: random_uniform_def random_random_def example_rng_def)
  have r: "py_round 30 1 = 30"
    by (simp add: py_round_def round_half_even_def)
  have "temperature (params.truncate (rs ! 1)) =
          py_round (fst (random_uniform 25 40 (example_rng\<lparr>drawn := drawn example_rng + 1\<rparr>))) 1"
    using c by (rule calculate_cell_parameters_temperature)
  then have "temperature (params.truncate (rs ! 1)) = 30"
    by (simp only: u r)
  then have t: "temperature (rs ! 1) = 30"
    by (simp add: params.truncate_def)
  have "drawn g' = 3" "length rs = 3"
    using dr len by (simp_all add: example_rng_def)
  then show ?thesis
    using one res a t by simp
qed

end
